theory Spec2Isabelle
  imports Complex_Main "HOL-Library.AList"
begin

section \<open>Data model\<close>

text \<open>
  The exceptions the modelled Python code can raise: an out-of-range index into an
  array, a slice step of zero or an empty table of sample points, and a missing
  dictionary key.
\<close>

datatype py_error = IndexError | ValueError | KeyError

text \<open>
  A warping path is a \<open>2 \<times> N\<close> array in the source: row 0 holds the first timeline's
  timestamps, row 1 the second's. It is kept here as the list of its \<open>N\<close> columns, so
  that \<open>align[0, i]\<close> is \<open>fst (align ! i)\<close> and \<open>align[1, i]\<close> is \<open>snd (align ! i)\<close>, and both
  rows have the same length by construction. Timestamps are real numbers.
\<close>

type_synonym point = "real \<times> real"
type_synonym path = "point list"

section \<open>system_utils.filter_vertical_and_horizontal_segments\<close>

text \<open>
  The loop \<open>for i in range(0, align.shape[1]-1)\<close>: the second argument is the list of the
  indices still to visit, the third the list \<open>new_align\<close> built so far.
\<close>

fun filter_loop :: "path \<Rightarrow> nat list \<Rightarrow> path \<Rightarrow> path" where
  "filter_loop align [] new_align = new_align"
| "filter_loop align (i # rest) new_align =
     (let x = fst (align ! i);
          y = snd (align ! i);
          x_next = fst (align ! (i + 1));
          y_next = snd (align ! (i + 1))
      in filter_loop align rest
           (if x \<noteq> x_next \<and> y \<noteq> y_next then new_align @ [(x, y)] else new_align))"

text \<open>
  After the loop the last column \<open>align[:, -1]\<close> is appended; on an array with no column
  that read raises \<open>IndexError\<close> (the loop itself is empty there, \<open>range(0, -1)\<close>).
\<close>

definition filter_vertical_and_horizontal_segments :: "path \<Rightarrow> py_error + path" where
  "filter_vertical_and_horizontal_segments align =
     (let new_align = filter_loop align [0 ..< length align - 1] []
      in if align = [] then Inl IndexError
         else Inr (new_align @ [(fst (last align), snd (last align))]))"

text \<open>The test of the loop body, as a predicate on the index.\<close>

definition diagonal_step :: "path \<Rightarrow> nat \<Rightarrow> bool" where
  "diagonal_step align i \<longleftrightarrow>
     fst (align ! i) \<noteq> fst (align ! (i + 1)) \<and> snd (align ! i) \<noteq> snd (align ! (i + 1))"

section \<open>sonify_tools.get_preprocessed_wp\<close>

text \<open>
  The file \<open>align_file\<close> is given by the array \<open>np.load\<close> reads from it. With a hop
  length the array is in frames and every entry is multiplied by it.
\<close>

definition load_wp :: "path \<Rightarrow> real option \<Rightarrow> path" where
  "load_wp align_file hop_len =
     (case hop_len of
        None \<Rightarrow> align_file
      | Some h \<Rightarrow> map (\<lambda>(a, b). (a * h, b * h)) align_file)"

text \<open>
  The slice \<open>xs[0::k]\<close>. For a positive step it takes the element at the front and
  skips \<open>k - 1\<close> elements, again and again; a step of zero raises \<open>ValueError\<close>; a negative
  step walks backwards from index 0 and so yields at most the first element.
\<close>

fun every_kth :: "nat \<Rightarrow> 'a list \<Rightarrow> 'a list" where
  "every_kth k [] = []"
| "every_kth k (x # xs) = x # every_kth k (drop (k - 1) xs)"

definition slice_step :: "'a list \<Rightarrow> int \<Rightarrow> py_error + 'a list" where
  "slice_step xs k =
     (if k = 0 then Inl ValueError
      else if 0 < k then Inr (every_kth (nat k) xs)
      else Inr (take 1 xs))"

text \<open>
  The downsampling step: \<open>wp_middle = wp[:, 1:-1]\<close>, then the first column, the
  middle \<open>wp_middle[:, 0::downsample]\<close> and the last column side by side. The tuple handed
  to \<open>np.hstack\<close> is evaluated from the left, so an array with no column fails on
  \<open>wp[:, 0]\<close> before the step is looked at.
\<close>

definition downsample_wp :: "path \<Rightarrow> int \<Rightarrow> py_error + path" where
  "downsample_wp wp downsample =
     (let wp_middle = butlast (tl wp)
      in if wp = [] then Inl IndexError
         else case slice_step wp_middle downsample of
                Inl e \<Rightarrow> Inl e
              | Inr middle \<Rightarrow> Inr ([hd wp] @ middle @ [last wp]))"

definition get_preprocessed_wp :: "path \<Rightarrow> int \<Rightarrow> real option \<Rightarrow> py_error + path" where
  "get_preprocessed_wp align_file downsample hop_len =
     downsample_wp (load_wp align_file hop_len) downsample"

section \<open>Floating-point samples\<close>

text \<open>
  Audio samples and the quantities computed from them are NumPy floats. A division by
  zero does not raise there: it yields an infinity or a NaN, which then spreads through
  the arithmetic. The model keeps these special values apart from the finite ones and
  follows IEEE 754 on them; on finite values it computes with exact real numbers
  (rounding, overflow and the sign of zero are not modelled).
\<close>

datatype npfloat = Fin real | PInf | NInf | NaN

fun fadd :: "npfloat \<Rightarrow> npfloat \<Rightarrow> npfloat" where
  "fadd (Fin a) (Fin b) = Fin (a + b)"
| "fadd NaN v = NaN"
| "fadd v NaN = NaN"
| "fadd PInf NInf = NaN"
| "fadd NInf PInf = NaN"
| "fadd PInf v = PInf"
| "fadd v PInf = PInf"
| "fadd NInf v = NInf"
| "fadd v NInf = NInf"

fun fmul :: "npfloat \<Rightarrow> npfloat \<Rightarrow> npfloat" where
  "fmul (Fin a) (Fin b) = Fin (a * b)"
| "fmul NaN v = NaN"
| "fmul v NaN = NaN"
| "fmul (Fin a) PInf = (if a = 0 then NaN else if 0 < a then PInf else NInf)"
| "fmul (Fin a) NInf = (if a = 0 then NaN else if 0 < a then NInf else PInf)"
| "fmul PInf (Fin b) = (if b = 0 then NaN else if 0 < b then PInf else NInf)"
| "fmul NInf (Fin b) = (if b = 0 then NaN else if 0 < b then NInf else PInf)"
| "fmul PInf PInf = PInf"
| "fmul NInf NInf = PInf"
| "fmul PInf NInf = NInf"
| "fmul NInf PInf = NInf"

fun fdiv :: "npfloat \<Rightarrow> npfloat \<Rightarrow> npfloat" where
  "fdiv (Fin a) (Fin b) =
     (if b = 0 then (if a = 0 then NaN else if 0 < a then PInf else NInf)
      else Fin (a / b))"
| "fdiv NaN v = NaN"
| "fdiv v NaN = NaN"
| "fdiv (Fin a) PInf = Fin 0"
| "fdiv (Fin a) NInf = Fin 0"
| "fdiv PInf (Fin b) = (if 0 \<le> b then PInf else NInf)"
| "fdiv NInf (Fin b) = (if 0 \<le> b then NInf else PInf)"
| "fdiv PInf PInf = NaN"
| "fdiv PInf NInf = NaN"
| "fdiv NInf PInf = NaN"
| "fdiv NInf NInf = NaN"

fun fsqrt :: "npfloat \<Rightarrow> npfloat" where
  "fsqrt (Fin a) = (if a < 0 then NaN else Fin (sqrt a))"
| "fsqrt PInf = PInf"
| "fsqrt NInf = NaN"
| "fsqrt NaN = NaN"

fun is_fin :: "npfloat \<Rightarrow> bool" where
  "is_fin (Fin a) = True"
| "is_fin v = False"

text \<open>
  The values a mean of squares can take: a finite number that is not negative, plus
  infinity, or NaN.
\<close>

fun nonneg_or_nan :: "npfloat \<Rightarrow> bool" where
  "nonneg_or_nan (Fin a) = (0 \<le> a)"
| "nonneg_or_nan PInf = True"
| "nonneg_or_nan NInf = False"
| "nonneg_or_nan NaN = True"

text \<open>\<open>np.mean\<close>: the sum over the number of entries; of an empty array it is NaN.\<close>

definition np_mean :: "npfloat list \<Rightarrow> npfloat" where
  "np_mean v = fdiv (foldl fadd (Fin 0) v) (Fin (real (length v)))"

section \<open>sonify_tools: mixing and channel reweighting\<close>

text \<open>
  A mono waveform is a list of samples; a stereo buffer is an \<open>N \<times> 2\<close> array, kept as
  the list of its rows (left sample, right sample).
\<close>

type_synonym signal = "npfloat list"
type_synonym stereo = "(npfloat \<times> npfloat) list"

text \<open>
  \<open>np.mean(c * c)\<close> for a column \<open>c\<close>. \<open>channel_volume_reweighting\<close> overwrites column 1
  of its argument and returns the array; the model returns the updated array.
\<close>

definition mean_square :: "signal \<Rightarrow> npfloat" where
  "mean_square channel = np_mean (map (\<lambda>v. fmul v v) channel)"

definition channel_volume_reweighting :: "stereo \<Rightarrow> stereo" where
  "channel_volume_reweighting x_stereo =
     (let mse_left = mean_square (map fst x_stereo);
          mse_right = mean_square (map snd x_stereo)
      in map (\<lambda>s. (fst s, fmul (snd s) (fsqrt (fdiv mse_left mse_right)))) x_stereo)"

definition mix_separate_channels :: "signal \<Rightarrow> signal \<Rightarrow> bool \<Rightarrow> bool \<Rightarrow> stereo" where
  "mix_separate_channels left_channel right_channel reweighted pad =
     (let right_padded =
            (if pad \<and> length left_channel > length right_channel
             then right_channel @ replicate (length left_channel - length right_channel) (Fin 0)
             else right_channel);
          left_padded =
            (if pad \<and> \<not> length left_channel > length right_channel
                 \<and> length right_channel > length left_channel
             then left_channel @ replicate (length right_channel - length left_channel) (Fin 0)
             else left_channel);
          N = min (length left_padded) (length right_padded);
          mixed = zip (take N left_padded) (take N right_padded)
      in if reweighted then channel_volume_reweighting mixed else mixed)"

section \<open>sonify_tools.sonifyWithTSMSync\<close>

text \<open>\<open>np.flipud\<close> on a two-row array swaps the rows.\<close>

definition flipud :: "path \<Rightarrow> path" where
  "flipud wp = map (\<lambda>(a, b). (b, a)) wp"

text \<open>
  The warping path as it stands after the two assignments to \<open>wp\<close> in
  \<open>sonifyWithTSMSync\<close>: the result of \<open>get_preprocessed_wp\<close>, handed to
  \<open>filter_vertical_and_horizontal_segments\<close>.
\<close>

definition sonify_wp :: "path \<Rightarrow> int \<Rightarrow> real option \<Rightarrow> py_error + path" where
  "sonify_wp align_file downsample hop_len =
     (case get_preprocessed_wp align_file downsample hop_len of
        Inl e \<Rightarrow> Inl e
      | Inr wp \<Rightarrow> filter_vertical_and_horizontal_segments wp)"

text \<open>
  The time-scale modification \<open>tsm_tools.tsmvar_hybrid\<close> belongs to another package and
  is a parameter here; the two audio files are given by the waveforms loaded from them.
  The function returns the mix (writing it to \<open>outfile\<close> changes nothing of it).
\<close>

definition sonifyWithTSMSync ::
  "(signal \<Rightarrow> path \<Rightarrow> signal) \<Rightarrow> signal \<Rightarrow> signal \<Rightarrow> path \<Rightarrow> int \<Rightarrow> real option
     \<Rightarrow> py_error + stereo" where
  "sonifyWithTSMSync tsmvar_hybrid y1 y2 align_file downsample hop_len =
     (case sonify_wp align_file downsample hop_len of
        Inl e \<Rightarrow> Inl e
      | Inr wp \<Rightarrow>
          (let y2_tsm = tsmvar_hybrid y2 (flipud wp)
           in Inr (mix_separate_channels y1 y2_tsm True False)))"

section \<open>eval_tools: ground truth\<close>

text \<open>
  A beat annotation file is given by its rows, each a (\<open>start\<close>, \<open>measure\<close>) pair in file
  order. \<open>parseAnnotationFile\<close> stores \<open>d[m] = t\<close> row by row, so a later row of the same
  measure replaces the timestamp of an earlier one. The dictionary is an association
  list in insertion order.
\<close>

type_synonym annotations = "(real \<times> int) list"
type_synonym timeline = "(int \<times> real) list"

definition parseAnnotationFile :: "annotations \<Rightarrow> timeline" where
  "parseAnnotationFile annotfile = fold (\<lambda>(t, m) d. AList.update m t d) annotfile []"

text \<open>
  The loop over \<open>eval_measures\<close>; a lookup \<open>gt1[m]\<close> of a measure the dictionary does not
  have raises \<open>KeyError\<close>.
\<close>

fun eval_pts_loop ::
  "timeline \<Rightarrow> timeline \<Rightarrow> int list \<Rightarrow> (real \<times> real) list \<Rightarrow> py_error + (real \<times> real) list" where
  "eval_pts_loop gt1 gt2 [] eval_pts = Inr eval_pts"
| "eval_pts_loop gt1 gt2 (m # rest) eval_pts =
     (case map_of gt1 m of
        None \<Rightarrow> Inl KeyError
      | Some t1 \<Rightarrow>
          (case map_of gt2 m of
             None \<Rightarrow> Inl KeyError
           | Some t2 \<Rightarrow> eval_pts_loop gt1 gt2 rest (eval_pts @ [(t1, t2)])))"

text \<open>
  The scenario file only serves to look up the set of measures to evaluate
  (\<open>getEvalMeasureSet\<close>); that set is the third argument.
\<close>

definition getGroundTruthTimestamps ::
  "annotations \<Rightarrow> annotations \<Rightarrow> int set \<Rightarrow> py_error + ((real \<times> real) list \<times> int list)" where
  "getGroundTruthTimestamps annotfile1 annotfile2 allEvalMeasures =
     (let gt1 = parseAnnotationFile annotfile1;
          gt2 = parseAnnotationFile annotfile2;
          eval_measures =
            sorted_list_of_set (set (map fst gt1) \<inter> set (map fst gt2) \<inter> allEvalMeasures)
      in case eval_pts_loop gt1 gt2 eval_measures [] of
           Inl e \<Rightarrow> Inl e
         | Inr eval_pts \<Rightarrow> Inr (eval_pts, eval_measures))"

section \<open>eval_tools.calcAlignErrors_single\<close>

text \<open>
  \<open>np.interp(x, xp, fp)\<close> at one point \<open>x\<close>, for sample points \<open>xp\<close> in increasing order:
  left of the first sample point the value is \<open>fp[0]\<close>, right of the last it is
  \<open>fp[-1]\<close>; otherwise NumPy searches the index \<open>j\<close> with \<open>xp[j] \<le> x < xp[j+1]\<close> and
  returns \<open>fp[j]\<close> when \<open>j\<close> is the last index or \<open>x = xp[j]\<close>, and
  \<open>(fp[j+1] - fp[j]) / (xp[j+1] - xp[j]) * (x - xp[j]) + fp[j]\<close> otherwise. The search
  is the scan below: it moves on while \<open>x\<close> has reached the next sample point. Its first
  equation is never used, since \<open>np_interp\<close> refuses an empty table before it scans.
\<close>

fun interp_scan :: "real \<Rightarrow> (real \<times> real) list \<Rightarrow> real" where
  "interp_scan x [] = 0"
| "interp_scan x [(x0, y0)] = y0"
| "interp_scan x ((x0, y0) # (x1, y1) # rest) =
     (if x1 \<le> x then interp_scan x ((x1, y1) # rest)
      else if x0 = x then y0
      else (y1 - y0) / (x1 - x0) * (x - x0) + y0)"

definition interp_at :: "real \<Rightarrow> real list \<Rightarrow> real list \<Rightarrow> real" where
  "interp_at x xp fp =
     (if last xp < x then last fp
      else if x < hd xp then hd fp
      else interp_scan x (zip xp fp))"

text \<open>
  An empty table of sample points and tables of different lengths raise \<open>ValueError\<close>.
\<close>

definition np_interp :: "real list \<Rightarrow> real list \<Rightarrow> real list \<Rightarrow> py_error + real list" where
  "np_interp xs xp fp =
     (if xp = [] \<or> length xp \<noteq> length fp then Inl ValueError
      else Inr (map (\<lambda>x. interp_at x xp fp) xs))"

text \<open>The conversion of a path in frames: \<open>hypalign / (22050/512)\<close>.\<close>

definition frames_to_sec :: "path \<Rightarrow> bool \<Rightarrow> path" where
  "frames_to_sec hypalign frames =
     (if frames then map (\<lambda>(a, b). (a / (22050 / 512), b / (22050 / 512))) hypalign
      else hypalign)"

text \<open>
  The hypothesis file is given by the array loaded from it. When no measure is
  selected, \<open>gt\<close> is an array of shape \<open>(0,)\<close> and \<open>gt[:, 0]\<close> raises \<open>IndexError\<close>.
\<close>

definition calcAlignErrors_single ::
  "path \<Rightarrow> annotations \<Rightarrow> annotations \<Rightarrow> int set \<Rightarrow> bool \<Rightarrow> py_error + (real list \<times> int list)" where
  "calcAlignErrors_single hypfile annotfile1 annotfile2 allEvalMeasures frames =
     (case getGroundTruthTimestamps annotfile1 annotfile2 allEvalMeasures of
        Inl e \<Rightarrow> Inl e
      | Inr (gt, measNums) \<Rightarrow>
          (let hypalign = frames_to_sec hypfile frames
           in if gt = [] then Inl IndexError
              else case np_interp (map fst gt) (map fst hypalign) (map snd hypalign) of
                     Inl e \<Rightarrow> Inl e
                   | Inr pred \<Rightarrow> Inr (map (\<lambda>(p, g). p - snd g) (zip pred gt), measNums)))"

section \<open>Properties of the path filter\<close>

lemma filter_loop_eq:
  "filter_loop align idx acc = acc @ map (\<lambda>i. align ! i) (filter (diagonal_step align) idx)"
  by (induction idx arbitrary: acc) (simp_all add: diagonal_step_def Let_def)

lemma filter_segments_eq:
  assumes "align \<noteq> []"
  shows "filter_vertical_and_horizontal_segments align =
           Inr (map (\<lambda>i. align ! i) (filter (diagonal_step align) [0 ..< length align - 1])
                @ [last align])"
  using assms by (simp add: filter_vertical_and_horizontal_segments_def filter_loop_eq)

text \<open>
  When a coordinate never decreases along the input and changes at every step the loop
  keeps, it increases strictly along the output, the appended last point included.
\<close>

lemma kept_strict:
  fixes f :: "point \<Rightarrow> real"
  assumes srt: "sorted (map f align)"
    and ne: "align \<noteq> []"
    and dg: "\<And>i. diagonal_step align i \<Longrightarrow> f (align ! i) \<noteq> f (align ! (i + 1))"
  shows "sorted_wrt (<) (map f (map (\<lambda>i. align ! i)
            (filter (diagonal_step align) [0 ..< length align - 1]) @ [last align]))"
proof -
  let ?n = "length align"
  let ?ks = "filter (diagonal_step align) [0 ..< ?n - 1]"
  have key: "f (align ! i) < f (align ! j)"
    if "diagonal_step align i" "i < j" "j < ?n" for i j
  proof -
    have "f (align ! i) \<le> f (align ! (i + 1))"
      using srt that by (simp add: sorted_iff_nth_mono)
    with dg [OF that(1)] have "f (align ! i) < f (align ! (i + 1))" by simp
    moreover have "f (align ! (i + 1)) \<le> f (align ! j)"
      using srt that by (simp add: sorted_iff_nth_mono)
    ultimately show ?thesis by simp
  qed
  have "sorted_wrt (<) ?ks"
    by (rule sorted_wrt_filter) (rule sorted_wrt_upt)
  then have inner: "sorted_wrt (\<lambda>i j. f (align ! i) < f (align ! j)) ?ks"
    by (rule sorted_wrt_mono_rel [rotated]) (auto intro: key)
  have lst: "last align = align ! (?n - 1)"
    using ne by (simp add: last_conv_nth)
  have outer: "\<forall>i\<in>set ?ks. f (align ! i) < f (last align)"
    using ne by (auto simp: lst intro!: key)
  show ?thesis
    using inner outer by (simp add: sorted_wrt_append sorted_wrt_map)
qed

text \<open>
  Claim C2. On a path of \<open>N \<ge> 2\<close> points the filter succeeds; in front of its last
  point the output holds, in order, exactly the points \<open>i\<close> from \<open>0\<close> to \<open>N - 2\<close> whose
  successor differs from them in both coordinates; the last point of the output is
  point \<open>N - 1\<close> of the input.
\<close>

theorem filter_keeps_point_iff_diagonal_step:
  assumes "2 \<le> length align"
  shows "\<exists>out. filter_vertical_and_horizontal_segments align = Inr out
           \<and> butlast out =
               map (\<lambda>i. align ! i)
                 (filter (\<lambda>i. fst (align ! i) \<noteq> fst (align ! (i + 1))
                              \<and> snd (align ! i) \<noteq> snd (align ! (i + 1)))
                    [0 ..< length align - 1])
           \<and> last out = align ! (length align - 1)"
proof -
  from assms have ne: "align \<noteq> []" by auto
  have "diagonal_step align =
          (\<lambda>i. fst (align ! i) \<noteq> fst (align ! (i + 1)) \<and> snd (align ! i) \<noteq> snd (align ! (i + 1)))"
    by (rule ext) (simp add: diagonal_step_def)
  then show ?thesis
    using ne by (simp add: filter_segments_eq last_conv_nth)
qed

theorem filter_keeps_point_iff_diagonal_step_witness:
  "2 \<le> length ([(0, 0), (1, 1), (1, 2), (2, 2), (3, 3)] :: path)
   \<and> filter_vertical_and_horizontal_segments [(0, 0), (1, 1), (1, 2), (2, 2), (3, 3)]
       = Inr [(0, 0), (2, 2), (3, 3)]
   \<and> butlast ([(0, 0), (2, 2), (3, 3)] :: path) = [(0, 0), (2, 2)]
   \<and> last ([(0, 0), (2, 2), (3, 3)] :: path) = (3, 3)"
proof -
  have f: "filter_vertical_and_horizontal_segments [(0, 0), (1, 1), (1, 2), (2, 2), (3, 3)]
             = Inr [(0, 0), (2, 2), (3, 3)]"
    by (simp add: filter_vertical_and_horizontal_segments_def upt_rec)
  show ?thesis
    using filter_keeps_point_iff_diagonal_step [of "[(0, 0), (1, 1), (1, 2), (2, 2), (3, 3)]"] f
    by simp
qed

text \<open>
  Claim C1, amended. On a path of at least 2 points whose first coordinate never
  decreases, the first coordinate of the filter's output increases strictly at every
  pair of consecutive points, the last pair included. Without the assumption on the input
  the statement fails at pairs other than the last one: the filter keeps the decreasing
  path \<open>(3, 3), (1, 1), (2, 2)\<close> as it is.
\<close>

theorem filter_first_coordinate_increasing:
  assumes "2 \<le> length align"
    and "sorted (map fst align)"
    and "filter_vertical_and_horizontal_segments align = Inr out"
  shows "\<forall>i. i + 1 < length out \<longrightarrow> fst (out ! i) < fst (out ! (i + 1))"
proof -
  from assms(1) have ne: "align \<noteq> []" by auto
  have out: "out = map (\<lambda>i. align ! i) (filter (diagonal_step align) [0 ..< length align - 1])
                   @ [last align]"
    using assms(3) ne by (simp add: filter_segments_eq)
  have "sorted_wrt (<) (map fst out)"
    unfolding out using assms(2) ne by (intro kept_strict) (simp_all add: diagonal_step_def)
  then show ?thesis
    by (simp add: sorted_wrt_iff_nth_less)
qed

theorem filter_first_coordinate_increasing_witness:
  "2 \<le> length ([(0, 0), (1, 1), (1, 2)] :: path)
   \<and> sorted (map fst ([(0, 0), (1, 1), (1, 2)] :: path))
   \<and> filter_vertical_and_horizontal_segments [(0, 0), (1, 1), (1, 2)] = Inr [(0, 0), (1, 2)]
   \<and> fst (([(0, 0), (1, 2)] :: path) ! 0) < fst (([(0, 0), (1, 2)] :: path) ! (0 + 1))"
proof -
  have f: "filter_vertical_and_horizontal_segments [(0, 0), (1, 1), (1, 2)] = Inr [(0, 0), (1, 2)]"
    by (simp add: filter_vertical_and_horizontal_segments_def upt_rec)
  have "\<forall>i. i + 1 < length ([(0, 0), (1, 2)] :: path)
          \<longrightarrow> fst (([(0, 0), (1, 2)] :: path) ! i) < fst (([(0, 0), (1, 2)] :: path) ! (i + 1))"
    by (rule filter_first_coordinate_increasing [OF _ _ f]) simp_all
  then have "fst (([(0, 0), (1, 2)] :: path) ! 0) < fst (([(0, 0), (1, 2)] :: path) ! (0 + 1))"
    by simp
  with f show ?thesis by simp
qed

theorem filter_first_coordinate_any_path_counterexample:
  "2 \<le> length ([(3, 3), (1, 1), (2, 2)] :: path)
   \<and> filter_vertical_and_horizontal_segments [(3, 3), (1, 1), (2, 2)]
       = Inr [(3, 3), (1, 1), (2, 2)]
   \<and> (0 :: nat) + 2 < length ([(3, 3), (1, 1), (2, 2)] :: path)
   \<and> \<not> fst (([(3, 3), (1, 1), (2, 2)] :: path) ! 0) < fst (([(3, 3), (1, 1), (2, 2)] :: path) ! (0 + 1))"
  by (simp add: filter_vertical_and_horizontal_segments_def upt_rec)

text \<open>
  Claim C9, amended. On a path of at least 2 points one of whose coordinates never
  decreases, no two consecutive points of the filter's output are equal. On other paths
  a point can come back after dropped points: from \<open>(0, 0), (1, 1), (1, 0), (0, 0)\<close> the
  filter keeps the first point and appends the last, which is the same point.
\<close>

theorem filter_no_repeated_point:
  assumes "2 \<le> length align"
    and "sorted (map fst align) \<or> sorted (map snd align)"
    and "filter_vertical_and_horizontal_segments align = Inr out"
  shows "\<forall>i. i + 1 < length out \<longrightarrow> out ! i \<noteq> out ! (i + 1)"
proof -
  from assms(1) have ne: "align \<noteq> []" by auto
  have out: "out = map (\<lambda>i. align ! i) (filter (diagonal_step align) [0 ..< length align - 1])
                   @ [last align]"
    using assms(3) ne by (simp add: filter_segments_eq)
  from assms(2) show ?thesis
  proof
    assume "sorted (map fst align)"
    then have "sorted_wrt (<) (map fst out)"
      unfolding out using ne by (intro kept_strict) (simp_all add: diagonal_step_def)
    then have "\<forall>i. i + 1 < length out \<longrightarrow> fst (out ! i) < fst (out ! (i + 1))"
      by (simp add: sorted_wrt_iff_nth_less)
    then show ?thesis by fastforce
  next
    assume "sorted (map snd align)"
    then have "sorted_wrt (<) (map snd out)"
      unfolding out using ne by (intro kept_strict) (simp_all add: diagonal_step_def)
    then have "\<forall>i. i + 1 < length out \<longrightarrow> snd (out ! i) < snd (out ! (i + 1))"
      by (simp add: sorted_wrt_iff_nth_less)
    then show ?thesis by fastforce
  qed
qed

theorem filter_no_repeated_point_witness:
  "2 \<le> length ([(0, 0), (1, 1), (1, 2)] :: path)
   \<and> sorted (map fst ([(0, 0), (1, 1), (1, 2)] :: path))
   \<and> filter_vertical_and_horizontal_segments [(0, 0), (1, 1), (1, 2)] = Inr [(0, 0), (1, 2)]
   \<and> ([(0, 0), (1, 2)] :: path) ! 0 \<noteq> ([(0, 0), (1, 2)] :: path) ! (0 + 1)"
proof -
  have f: "filter_vertical_and_horizontal_segments [(0, 0), (1, 1), (1, 2)] = Inr [(0, 0), (1, 2)]"
    by (simp add: filter_vertical_and_horizontal_segments_def upt_rec)
  have "\<forall>i. i + 1 < length ([(0, 0), (1, 2)] :: path)
          \<longrightarrow> ([(0, 0), (1, 2)] :: path) ! i \<noteq> ([(0, 0), (1, 2)] :: path) ! (i + 1)"
    by (rule filter_no_repeated_point [OF _ _ f]) simp_all
  then have "([(0, 0), (1, 2)] :: path) ! 0 \<noteq> ([(0, 0), (1, 2)] :: path) ! (0 + 1)"
    by simp
  with f show ?thesis by simp
qed

theorem filter_repeated_point_counterexample:
  "2 \<le> length ([(0, 0), (1, 1), (1, 0), (0, 0)] :: path)
   \<and> filter_vertical_and_horizontal_segments [(0, 0), (1, 1), (1, 0), (0, 0)]
       = Inr [(0, 0), (0, 0)]
   \<and> (0 :: nat) + 1 < length ([(0, 0), (0, 0)] :: path)
   \<and> ([(0, 0), (0, 0)] :: path) ! 0 = ([(0, 0), (0, 0)] :: path) ! (0 + 1)"
  by (simp add: filter_vertical_and_horizontal_segments_def upt_rec)

section \<open>Properties of the downsampling step\<close>

lemma every_kth_one: "every_kth (Suc 0) xs = xs"
  by (induction xs) simp_all

lemma length_every_kth:
  "0 < k \<Longrightarrow> length (every_kth k xs) = (length xs + k - 1) div k"
proof (induction k xs rule: every_kth.induct)
  case (1 k)
  then show ?case by simp
next
  case (2 k x xs)
  show ?case
  proof (cases "k - 1 \<le> length xs")
    case True
    with 2 have "length (every_kth k (drop (k - 1) xs)) = length xs div k"
      by simp
    moreover have "(Suc (length xs) + k - 1) div k = Suc (length xs div k)"
      using 2(2) by simp
    ultimately show ?thesis by simp
  next
    case False
    with 2 show ?thesis by simp
  qed
qed

lemma nth_every_kth:
  "0 < k \<Longrightarrow> j < length (every_kth k xs) \<Longrightarrow> every_kth k xs ! j = xs ! (j * k)"
proof (induction k xs arbitrary: j rule: every_kth.induct)
  case (1 k)
  then show ?case by simp
next
  case (2 k x xs)
  show ?case
  proof (cases j)
    case 0
    then show ?thesis by simp
  next
    case (Suc j')
    with 2 have len: "j' < length (every_kth k (drop (k - 1) xs))" by simp
    with 2 have "every_kth k (drop (k - 1) xs) ! j' = drop (k - 1) xs ! (j' * k)"
      by simp
    moreover have "k - 1 \<le> length xs"
    proof (rule ccontr)
      assume "\<not> k - 1 \<le> length xs"
      then have "drop (k - 1) xs = []" by simp
      with len show False by simp
    qed
    moreover have "Suc j' * k = Suc (k - 1 + j' * k)"
      using 2(2) by simp
    ultimately show ?thesis
      using Suc by (simp del: mult_Suc)
  qed
qed

lemma every_kth_eq:
  assumes "0 < k"
  shows "every_kth k xs = map (\<lambda>j. xs ! (j * k)) [0 ..< (length xs + k - 1) div k]"
  using assms by (simp add: list_eq_iff_nth_eq length_every_kth nth_every_kth)

lemma middle_nth:
  assumes "i < length wp - 2"
  shows "butlast (tl wp) ! i = wp ! (1 + i)"
  using assms by (simp add: nth_butlast nth_tl)

lemma downsample_wp_eq:
  assumes "wp \<noteq> []" and "1 \<le> k"
  shows "downsample_wp wp k = Inr ([hd wp] @ every_kth (nat k) (butlast (tl wp)) @ [last wp])"
  using assms by (simp add: downsample_wp_def slice_step_def)

text \<open>
  Claim C7. Let \<open>wp\<close> be the loaded path (converted to seconds when a hop length is
  given), with at least 2 points, and let the downsample factor be \<open>k \<ge> 1\<close>. Then
  \<open>get_preprocessed_wp\<close> succeeds, and its output is the first point of \<open>wp\<close>, then the
  interior points of \<open>wp\<close> at the offsets \<open>0, k, 2k, \<dots>\<close> from the first interior point,
  then the last point of \<open>wp\<close>; for \<open>k = 1\<close> the output is \<open>wp\<close>.
\<close>

theorem downsample_keeps_ends_and_every_kth:
  assumes "2 \<le> length align_file" and "1 \<le> k"
  shows "\<exists>wp out. wp = load_wp align_file hop_len
           \<and> get_preprocessed_wp align_file k hop_len = Inr out
           \<and> out = [wp ! 0]
                   @ map (\<lambda>j. wp ! (1 + j * nat k)) [0 ..< (length wp - 2 + nat k - 1) div nat k]
                   @ [wp ! (length wp - 1)]
           \<and> hd out = hd wp \<and> last out = last wp
           \<and> (k = 1 \<longrightarrow> out = wp)"
proof -
  define wp where "wp = load_wp align_file hop_len"
  have len: "length wp = length align_file"
    by (simp add: wp_def load_wp_def split: option.split)
  with assms have ne: "wp \<noteq> []" by auto
  define mid where "mid = butlast (tl wp)"
  have lm: "length mid = length wp - 2" by (simp add: mid_def)
  have kpos: "0 < nat k" using assms(2) by simp
  have out: "get_preprocessed_wp align_file k hop_len
               = Inr ([hd wp] @ every_kth (nat k) mid @ [last wp])"
    using ne assms(2) by (simp add: get_preprocessed_wp_def wp_def [symmetric] downsample_wp_eq mid_def)
  have "every_kth (nat k) mid = map (\<lambda>j. mid ! (j * nat k)) [0 ..< (length mid + nat k - 1) div nat k]"
    by (rule every_kth_eq [OF kpos])
  also have "\<dots> = map (\<lambda>j. wp ! (1 + j * nat k)) [0 ..< (length wp - 2 + nat k - 1) div nat k]"
  proof (rule map_cong)
    show "[0 ..< (length mid + nat k - 1) div nat k] = [0 ..< (length wp - 2 + nat k - 1) div nat k]"
      by (simp add: lm)
  next
    fix j assume "j \<in> set [0 ..< (length wp - 2 + nat k - 1) div nat k]"
    then have "j < (length mid + nat k - 1) div nat k" by (simp add: lm)
    then have "Suc j \<le> (length mid + nat k - 1) div nat k" by simp
    then have "Suc j * nat k \<le> length mid + nat k - 1"
      using kpos by (simp add: less_eq_div_iff_mult_less_eq)
    then have "j * nat k < length mid" using kpos by simp
    then show "mid ! (j * nat k) = wp ! (1 + j * nat k)"
      unfolding mid_def using middle_nth [of "j * nat k" wp] by (simp add: lm [unfolded mid_def])
  qed
  finally have mid_eq: "every_kth (nat k) mid
      = map (\<lambda>j. wp ! (1 + j * nat k)) [0 ..< (length wp - 2 + nat k - 1) div nat k]" .
  have hd: "hd wp = wp ! 0" using ne by (simp add: hd_conv_nth)
  have lst: "last wp = wp ! (length wp - 1)" using ne by (simp add: last_conv_nth)
  have one: "[hd wp] @ every_kth (nat 1) mid @ [last wp] = wp"
  proof -
    have "2 \<le> length wp" using len assms(1) by simp
    then obtain a b rest where "wp = a # b # rest"
      by (cases wp; cases "tl wp") auto
    then show ?thesis by (simp add: mid_def every_kth_one)
  qed
  show ?thesis
    using out mid_eq hd lst one by (auto simp: wp_def)
qed

theorem downsample_keeps_ends_and_every_kth_witness:
  "2 \<le> length ([(0, 0), (1, 1), (2, 2), (3, 3), (4, 4), (5, 5), (6, 6)] :: path)
   \<and> (1 :: int) \<le> 2
   \<and> get_preprocessed_wp [(0, 0), (1, 1), (2, 2), (3, 3), (4, 4), (5, 5), (6, 6)] 2 None
       = Inr [(0, 0), (1, 1), (3, 3), (5, 5), (6, 6)]"
  using downsample_keeps_ends_and_every_kth
          [of "[(0, 0), (1, 1), (2, 2), (3, 3), (4, 4), (5, 5), (6, 6)]" 2 None]
  by (simp add: load_wp_def upt_rec)

section \<open>Endpoints\<close>

text \<open>
  Claim C3, amended. On a path of at least 2 points the filter and the downsampling
  step (factor \<open>k \<ge> 1\<close>) both end their output with the last point of their input, the
  downsampling step begins its output with the first point of its input, and the filter
  does so when point 1 differs from point 0 in both coordinates. When the path begins with
  a horizontal or vertical step the filter drops the first point: from
  \<open>(0, 0), (0, 1), (1, 2)\<close> it returns \<open>(0, 1), (1, 2)\<close>.
\<close>

theorem endpoints_through_filter_and_downsampler:
  assumes "2 \<le> length wp"
  shows "(\<exists>out. filter_vertical_and_horizontal_segments wp = Inr out
            \<and> last out = last wp
            \<and> (fst (wp ! 0) \<noteq> fst (wp ! 1) \<and> snd (wp ! 0) \<noteq> snd (wp ! 1) \<longrightarrow> hd out = hd wp))
       \<and> (1 \<le> k \<longrightarrow>
            (\<exists>out. downsample_wp wp k = Inr out \<and> hd out = hd wp \<and> last out = last wp))"
proof -
  from assms have ne: "wp \<noteq> []" by auto
  have "hd (map (\<lambda>i. wp ! i) (filter (diagonal_step wp) [0 ..< length wp - 1]) @ [last wp]) = hd wp"
    if "diagonal_step wp 0"
  proof -
    have "[0 ..< length wp - 1] = 0 # [1 ..< length wp - 1]"
      using assms by (simp add: upt_rec)
    with that ne show ?thesis by (simp add: hd_conv_nth)
  qed
  then have "\<exists>out. filter_vertical_and_horizontal_segments wp = Inr out
            \<and> last out = last wp
            \<and> (fst (wp ! 0) \<noteq> fst (wp ! 1) \<and> snd (wp ! 0) \<noteq> snd (wp ! 1) \<longrightarrow> hd out = hd wp)"
    using ne by (simp add: filter_segments_eq diagonal_step_def)
  moreover have "\<exists>out. downsample_wp wp k = Inr out \<and> hd out = hd wp \<and> last out = last wp"
    if "1 \<le> k"
    using ne that by (simp add: downsample_wp_eq)
  ultimately show ?thesis by blast
qed

theorem endpoints_through_filter_and_downsampler_witness:
  "2 \<le> length ([(0, 0), (1, 1), (1, 2), (2, 3), (3, 4)] :: path)
   \<and> fst (([(0, 0), (1, 1), (1, 2), (2, 3), (3, 4)] :: path) ! 0)
       \<noteq> fst (([(0, 0), (1, 1), (1, 2), (2, 3), (3, 4)] :: path) ! 1)
   \<and> snd (([(0, 0), (1, 1), (1, 2), (2, 3), (3, 4)] :: path) ! 0)
       \<noteq> snd (([(0, 0), (1, 1), (1, 2), (2, 3), (3, 4)] :: path) ! 1)
   \<and> (1 :: int) \<le> 2
   \<and> filter_vertical_and_horizontal_segments [(0, 0), (1, 1), (1, 2), (2, 3), (3, 4)]
       = Inr [(0, 0), (1, 2), (2, 3), (3, 4)]
   \<and> last ([(0, 0), (1, 2), (2, 3), (3, 4)] :: path) = last [(0, 0), (1, 1), (1, 2), (2, 3), (3, 4)]
   \<and> hd ([(0, 0), (1, 2), (2, 3), (3, 4)] :: path) = hd [(0, 0), (1, 1), (1, 2), (2, 3), (3, 4)]
   \<and> downsample_wp [(0, 0), (1, 1), (1, 2), (2, 3), (3, 4)] 2 = Inr [(0, 0), (1, 1), (2, 3), (3, 4)]
   \<and> hd ([(0, 0), (1, 1), (2, 3), (3, 4)] :: path) = hd [(0, 0), (1, 1), (1, 2), (2, 3), (3, 4)]
   \<and> last ([(0, 0), (1, 1), (2, 3), (3, 4)] :: path) = last [(0, 0), (1, 1), (1, 2), (2, 3), (3, 4)]"
proof -
  have f: "filter_vertical_and_horizontal_segments [(0, 0), (1, 1), (1, 2), (2, 3), (3, 4)]
             = Inr [(0, 0), (1, 2), (2, 3), (3, 4)]"
    by (simp add: filter_vertical_and_horizontal_segments_def upt_rec)
  have d: "downsample_wp [(0, 0), (1, 1), (1, 2), (2, 3), (3, 4)] 2
             = Inr [(0, 0), (1, 1), (2, 3), (3, 4)]"
    by (simp add: downsample_wp_def slice_step_def)
  show ?thesis
    using endpoints_through_filter_and_downsampler [of "[(0, 0), (1, 1), (1, 2), (2, 3), (3, 4)]" 2] f d
    by simp
qed

theorem filter_drops_first_point_counterexample:
  "2 \<le> length ([(0, 0), (0, 1), (1, 2)] :: path)
   \<and> filter_vertical_and_horizontal_segments [(0, 0), (0, 1), (1, 2)] = Inr [(0, 1), (1, 2)]
   \<and> hd ([(0, 1), (1, 2)] :: path) \<noteq> hd [(0, 0), (0, 1), (1, 2)]"
  by (simp add: filter_vertical_and_horizontal_segments_def upt_rec)

section \<open>The path handed to the time-scale modification\<close>

text \<open>
  Claim C4, amended. In \<open>sonifyWithTSMSync\<close> the path is loaded, then downsampled, then
  filtered: for a non-empty path file and a downsample factor other than 0 both steps
  succeed, and the time-scale modification receives the filtered downsampled path with
  its two rows swapped. Filtering before downsampling gives another path in general: from
  \<open>(0, 0), (1, 1), (1, 2), (2, 3), (3, 4)\<close> with factor 2 the function computes
  \<open>(0, 0), (1, 1), (2, 3), (3, 4)\<close>, the other order \<open>(0, 0), (1, 2), (3, 4)\<close>.
\<close>

theorem sonify_downsamples_then_filters:
  assumes "align_file \<noteq> []" and "downsample \<noteq> 0"
  shows "\<exists>wp_down wp_filt.
           downsample_wp (load_wp align_file hop_len) downsample = Inr wp_down
         \<and> filter_vertical_and_horizontal_segments wp_down = Inr wp_filt
         \<and> sonify_wp align_file downsample hop_len = Inr wp_filt
         \<and> sonifyWithTSMSync tsmvar_hybrid y1 y2 align_file downsample hop_len
             = Inr (mix_separate_channels y1 (tsmvar_hybrid y2 (flipud wp_filt)) True False)"
proof -
  have ne: "load_wp align_file hop_len \<noteq> []"
    using assms(1) by (simp add: load_wp_def split: option.split)
  define wp_down where "wp_down = [hd (load_wp align_file hop_len)]
      @ (if 0 < downsample then every_kth (nat downsample) (butlast (tl (load_wp align_file hop_len)))
         else take 1 (butlast (tl (load_wp align_file hop_len))))
      @ [last (load_wp align_file hop_len)]"
  have d: "downsample_wp (load_wp align_file hop_len) downsample = Inr wp_down"
    using ne assms(2) by (simp add: downsample_wp_def slice_step_def wp_down_def)
  have dne: "wp_down \<noteq> []"
    by (simp add: wp_down_def)
  from dne obtain wp_filt where f: "filter_vertical_and_horizontal_segments wp_down = Inr wp_filt"
    by (auto simp: filter_segments_eq)
  have w: "sonify_wp align_file downsample hop_len = Inr wp_filt"
    using d f by (simp add: sonify_wp_def get_preprocessed_wp_def)
  then have "sonifyWithTSMSync tsmvar_hybrid y1 y2 align_file downsample hop_len
             = Inr (mix_separate_channels y1 (tsmvar_hybrid y2 (flipud wp_filt)) True False)"
    by (simp add: sonifyWithTSMSync_def)
  with d f w show ?thesis by blast
qed

theorem sonify_downsamples_then_filters_witness:
  "([(0, 0), (1, 1), (1, 2), (2, 3), (3, 4)] :: path) \<noteq> [] \<and> (2 :: int) \<noteq> 0
   \<and> downsample_wp (load_wp [(0, 0), (1, 1), (1, 2), (2, 3), (3, 4)] None) 2
       = Inr [(0, 0), (1, 1), (2, 3), (3, 4)]
   \<and> filter_vertical_and_horizontal_segments [(0, 0), (1, 1), (2, 3), (3, 4)]
       = Inr [(0, 0), (1, 1), (2, 3), (3, 4)]
   \<and> sonifyWithTSMSync (\<lambda>y wp. map (\<lambda>p. Fin (fst p)) wp) [Fin 1, Fin 1, Fin 1, Fin 1] []
         [(0, 0), (1, 1), (1, 2), (2, 3), (3, 4)] 2 None
       = Inr (mix_separate_channels [Fin 1, Fin 1, Fin 1, Fin 1]
                (map (\<lambda>p. Fin (fst p)) (flipud [(0, 0), (1, 1), (2, 3), (3, 4)])) True False)"
proof -
  have d: "downsample_wp (load_wp [(0, 0), (1, 1), (1, 2), (2, 3), (3, 4)] None) 2
             = Inr [(0, 0), (1, 1), (2, 3), (3, 4)]"
    by (simp add: downsample_wp_def slice_step_def load_wp_def)
  have f: "filter_vertical_and_horizontal_segments [(0, 0), (1, 1), (2, 3), (3, 4)]
             = Inr [(0, 0), (1, 1), (2, 3), (3, 4)]"
    by (simp add: filter_vertical_and_horizontal_segments_def upt_rec)
  show ?thesis
    using sonify_downsamples_then_filters
            [of "[(0, 0), (1, 1), (1, 2), (2, 3), (3, 4)]" 2 None
                "\<lambda>y wp. map (\<lambda>p. Fin (fst p)) wp" "[Fin 1, Fin 1, Fin 1, Fin 1]" "[]"] d f
    by simp
qed

theorem sonify_filter_before_downsample_counterexample:
  "sonify_wp [(0, 0), (1, 1), (1, 2), (2, 3), (3, 4)] 2 None = Inr [(0, 0), (1, 1), (2, 3), (3, 4)]
   \<and> filter_vertical_and_horizontal_segments (load_wp [(0, 0), (1, 1), (1, 2), (2, 3), (3, 4)] None)
       = Inr [(0, 0), (1, 2), (2, 3), (3, 4)]
   \<and> downsample_wp [(0, 0), (1, 2), (2, 3), (3, 4)] 2 = Inr [(0, 0), (1, 2), (3, 4)]
   \<and> ([(0, 0), (1, 1), (2, 3), (3, 4)] :: path) \<noteq> [(0, 0), (1, 2), (3, 4)]"
  by (simp add: sonify_wp_def get_preprocessed_wp_def downsample_wp_def slice_step_def load_wp_def
        filter_vertical_and_horizontal_segments_def upt_rec)

section \<open>Properties of the ground truth\<close>

lemma eval_pts_loop_ok:
  assumes "set ms \<subseteq> dom (map_of gt1) \<inter> dom (map_of gt2)"
  shows "eval_pts_loop gt1 gt2 ms acc
           = Inr (acc @ map (\<lambda>m. (the (map_of gt1 m), the (map_of gt2 m))) ms)"
  using assms by (induction ms arbitrary: acc) auto

text \<open>
  Claim C6. \<open>getGroundTruthTimestamps\<close> always succeeds. The measure numbers it returns
  are exactly those that are keys of both timelines and members of the evaluation set,
  in strictly ascending order; the sequence of pairs has the same length, and at every
  index \<open>i\<close> the pair holds the first timeline's timestamp and the second timeline's
  timestamp of the \<open>i\<close>-th returned measure.
\<close>

theorem ground_truth_sorted_and_aligned:
  "\<exists>eval_pts eval_measures.
      getGroundTruthTimestamps annotfile1 annotfile2 allEvalMeasures = Inr (eval_pts, eval_measures)
    \<and> set eval_measures = dom (map_of (parseAnnotationFile annotfile1))
                            \<inter> dom (map_of (parseAnnotationFile annotfile2)) \<inter> allEvalMeasures
    \<and> sorted_wrt (<) eval_measures
    \<and> length eval_pts = length eval_measures
    \<and> (\<forall>i < length eval_measures.
          map_of (parseAnnotationFile annotfile1) (eval_measures ! i) = Some (fst (eval_pts ! i))
        \<and> map_of (parseAnnotationFile annotfile2) (eval_measures ! i) = Some (snd (eval_pts ! i)))"
proof -
  define gt1 where "gt1 = parseAnnotationFile annotfile1"
  define gt2 where "gt2 = parseAnnotationFile annotfile2"
  define ms where "ms = sorted_list_of_set (set (map fst gt1) \<inter> set (map fst gt2) \<inter> allEvalMeasures)"
  define pts where "pts = map (\<lambda>m. (the (map_of gt1 m), the (map_of gt2 m))) ms"
  have fin: "finite (set (map fst gt1) \<inter> set (map fst gt2) \<inter> allEvalMeasures)"
    by simp
  have set_ms: "set ms = dom (map_of gt1) \<inter> dom (map_of gt2) \<inter> allEvalMeasures"
    unfolding ms_def using fin by (simp add: dom_map_of_conv_image_fst)
  then have sub: "set ms \<subseteq> dom (map_of gt1) \<inter> dom (map_of gt2)" by blast
  have srt: "sorted_wrt (<) ms"
    unfolding ms_def by (rule strict_sorted_list_of_set)
  have res: "getGroundTruthTimestamps annotfile1 annotfile2 allEvalMeasures = Inr (pts, ms)"
    using eval_pts_loop_ok [OF sub, of "[]"]
    by (simp add: getGroundTruthTimestamps_def Let_def gt1_def gt2_def ms_def pts_def)
  have al: "map_of gt1 (ms ! i) = Some (fst (pts ! i)) \<and> map_of gt2 (ms ! i) = Some (snd (pts ! i))"
    if "i < length ms" for i
  proof -
    from that have "ms ! i \<in> set ms" by simp
    with sub have "ms ! i \<in> dom (map_of gt1)" "ms ! i \<in> dom (map_of gt2)" by auto
    with that show ?thesis by (auto simp: pts_def)
  qed
  have "length pts = length ms" by (simp add: pts_def)
  with res set_ms srt al show ?thesis
    unfolding gt1_def gt2_def by blast
qed

theorem ground_truth_sorted_and_aligned_witness:
  "getGroundTruthTimestamps [(1/2, 1), (3/2, 2), (5/2, 1), (4, 3)] [(7, 3), (8, 1), (9, 5)] {1, 2, 3, 5}
     = Inr ([(5/2, 8), (4, 7)], [1, 3])
   \<and> map_of (parseAnnotationFile [(1/2, 1), (3/2, 2), (5/2, 1), (4, 3)]) 1 = Some (5/2)
   \<and> map_of (parseAnnotationFile [(7, 3), (8, 1), (9, 5)]) 1 = Some 8
   \<and> map_of (parseAnnotationFile [(1/2, 1), (3/2, 2), (5/2, 1), (4, 3)]) 3 = Some 4
   \<and> map_of (parseAnnotationFile [(7, 3), (8, 1), (9, 5)]) 3 = Some 7"
proof -
  obtain eval_pts eval_measures where
    r: "getGroundTruthTimestamps [(1/2, 1), (3/2, 2), (5/2, 1), (4, 3)] [(7, 3), (8, 1), (9, 5)]
          {1, 2, 3, 5} = Inr (eval_pts, eval_measures)"
    and a: "\<forall>i < length eval_measures.
          map_of (parseAnnotationFile [(1/2, 1), (3/2, 2), (5/2, 1), (4, 3)]) (eval_measures ! i)
            = Some (fst (eval_pts ! i))
        \<and> map_of (parseAnnotationFile [(7, 3), (8, 1), (9, 5)]) (eval_measures ! i)
            = Some (snd (eval_pts ! i))"
    using ground_truth_sorted_and_aligned
            [of "[(1/2, 1), (3/2, 2), (5/2, 1), (4, 3)]" "[(7, 3), (8, 1), (9, 5)]" "{1, 2, 3, 5}"]
    by blast
  have v: "getGroundTruthTimestamps [(1/2, 1), (3/2, 2), (5/2, 1), (4, 3)] [(7, 3), (8, 1), (9, 5)]
          {1, 2, 3, 5} = Inr ([(5/2, 8), (4, 7)], [1, 3])"
    by (simp add: getGroundTruthTimestamps_def parseAnnotationFile_def)
  with r have e: "eval_pts = [(5/2, 8), (4, 7)]" "eval_measures = [1, 3]" by simp_all
  from a [unfolded e, rule_format, of 0] a [unfolded e, rule_format, of 1] v
  show ?thesis by simp
qed

section \<open>Properties of the alignment errors\<close>

lemma scan_at_sample:
  "sorted_wrt (<) (map fst ps) \<Longrightarrow> j < length ps \<Longrightarrow> x = fst (ps ! j)
     \<Longrightarrow> interp_scan x ps = snd (ps ! j)"
proof (induction x ps arbitrary: j rule: interp_scan.induct)
  case (1 x)
  then show ?case by simp
next
  case (2 x x0 y0)
  then show ?case by simp
next
  case (3 x x0 y0 x1 y1 rest)
  show ?case
  proof (cases j)
    case 0
    with 3(2,4) show ?thesis by auto
  next
    case (Suc j')
    from 3(2) have "\<forall>p \<in> set rest. x1 < fst p" by simp
    with 3(3,4) Suc have "x1 \<le> x" by (cases j') (auto simp: less_imp_le)
    with 3 Suc show ?thesis by simp
  qed
qed

lemma scan_between:
  "sorted_wrt (<) (map fst ps) \<Longrightarrow> j + 1 < length ps \<Longrightarrow> fst (ps ! j) < x
     \<Longrightarrow> x < fst (ps ! (j + 1))
     \<Longrightarrow> interp_scan x ps
           = (snd (ps ! (j + 1)) - snd (ps ! j)) / (fst (ps ! (j + 1)) - fst (ps ! j))
               * (x - fst (ps ! j)) + snd (ps ! j)"
proof (induction x ps arbitrary: j rule: interp_scan.induct)
  case (1 x)
  then show ?case by simp
next
  case (2 x x0 y0)
  then show ?case by simp
next
  case (3 x x0 y0 x1 y1 rest)
  show ?case
  proof (cases j)
    case 0
    with 3(2-) show ?thesis by auto
  next
    case (Suc j')
    from 3(2) have "\<forall>p \<in> set rest. x1 < fst p" by simp
    with 3(3,4) Suc have "x1 \<le> x"
      by (cases j') (auto simp: less_imp_le intro: order_trans [OF less_imp_le less_imp_le])
    with 3 Suc show ?thesis by simp
  qed
qed

lemma sorted_fst_nth_le:
  fixes ps :: path
  assumes "sorted_wrt (<) (map fst ps)" and "i \<le> j" and "j < length ps"
  shows "fst (ps ! i) \<le> fst (ps ! j)"
proof (cases "i = j")
  case True
  then show ?thesis by simp
next
  case False
  with assms have "map fst ps ! i < map fst ps ! j"
    by (simp add: sorted_wrt_iff_nth_less)
  with assms show ?thesis by simp
qed

lemma sorted_hd_le:
  fixes ps :: path
  assumes "sorted_wrt (<) (map fst ps)" and "j < length ps"
  shows "fst (hd ps) \<le> fst (ps ! j)"
proof -
  from assms(2) have "ps \<noteq> []" by auto
  then have "hd ps = ps ! 0" by (simp add: hd_conv_nth)
  with sorted_fst_nth_le [OF assms(1), of 0 j] assms(2) show ?thesis by simp
qed

lemma sorted_le_last:
  fixes ps :: path
  assumes "sorted_wrt (<) (map fst ps)" and "j < length ps"
  shows "fst (ps ! j) \<le> fst (last ps)"
proof -
  from assms(2) have "ps \<noteq> []" by auto
  then have "last ps = ps ! (length ps - 1)" by (simp add: last_conv_nth)
  with sorted_fst_nth_le [OF assms(1), of j "length ps - 1"] assms(2) show ?thesis by simp
qed

lemma interp_at_path:
  assumes srt: "sorted_wrt (<) (map fst ps)" and ne: "ps \<noteq> []"
  shows "(x < fst (hd ps) \<longrightarrow> interp_at x (map fst ps) (map snd ps) = snd (hd ps))
       \<and> (fst (last ps) < x \<longrightarrow> interp_at x (map fst ps) (map snd ps) = snd (last ps))
       \<and> (\<forall>j. j + 1 < length ps \<and> fst (ps ! j) \<le> x \<and> x \<le> fst (ps ! (j + 1)) \<longrightarrow>
             interp_at x (map fst ps) (map snd ps)
               = snd (ps ! j) + (x - fst (ps ! j)) * (snd (ps ! (j + 1)) - snd (ps ! j))
                                  / (fst (ps ! (j + 1)) - fst (ps ! j)))"
proof (intro conjI impI allI)
  have hl: "fst (hd ps) \<le> fst (last ps)"
    using sorted_le_last [OF srt, of 0] ne by (simp add: hd_conv_nth)
  show "interp_at x (map fst ps) (map snd ps) = snd (hd ps)" if "x < fst (hd ps)"
    using that hl ne by (simp add: interp_at_def hd_map last_map)
  show "interp_at x (map fst ps) (map snd ps) = snd (last ps)" if "fst (last ps) < x"
    using that ne by (simp add: interp_at_def last_map)
  fix j
  assume b: "j + 1 < length ps \<and> fst (ps ! j) \<le> x \<and> x \<le> fst (ps ! (j + 1))"
  then have j: "j + 1 < length ps" and lo: "fst (ps ! j) \<le> x" and hi: "x \<le> fst (ps ! (j + 1))"
    by simp_all
  have "fst (hd ps) \<le> x"
    using sorted_hd_le [OF srt, of j] j lo by simp
  moreover have "x \<le> fst (last ps)"
    using sorted_le_last [OF srt, of "j + 1"] j hi by simp
  ultimately have scan: "interp_at x (map fst ps) (map snd ps) = interp_scan x ps"
    using ne by (simp add: interp_at_def hd_map last_map zip_map_fst_snd)
  have step: "fst (ps ! j) < fst (ps ! (j + 1))"
    using sorted_wrt_nth_less [OF srt, of j "j + 1"] j by simp
  let ?f = "snd (ps ! j) + (x - fst (ps ! j)) * (snd (ps ! (j + 1)) - snd (ps ! j))
                                  / (fst (ps ! (j + 1)) - fst (ps ! j))"
  consider "x = fst (ps ! j)" | "x = fst (ps ! (j + 1))" | "fst (ps ! j) < x" "x < fst (ps ! (j + 1))"
    using lo hi by fastforce
  then have "interp_scan x ps = ?f"
  proof cases
    case 1
    then have "interp_scan x ps = snd (ps ! j)"
      using scan_at_sample [OF srt, of j x] j by simp
    with 1 show ?thesis by simp
  next
    case 2
    then have "interp_scan x ps = snd (ps ! (j + 1))"
      using scan_at_sample [OF srt, of "j + 1" x] j by simp
    with 2 step show ?thesis by (simp add: field_simps)
  next
    case 3
    then have "interp_scan x ps
           = (snd (ps ! (j + 1)) - snd (ps ! j)) / (fst (ps ! (j + 1)) - fst (ps ! j))
               * (x - fst (ps ! j)) + snd (ps ! j)"
      using scan_between [OF srt, of j x] j by simp
    then show ?thesis by (simp add: field_simps)
  qed
  with scan show "interp_at x (map fst ps) (map snd ps) = ?f" by simp
qed

text \<open>
  Claim C5. Let the ground truth have at least one point and let the hypothesis path
  (in seconds) be non-empty with strictly increasing first coordinates. Then
  \<open>calcAlignErrors_single\<close> succeeds and returns the measure numbers of the ground truth
  with one error per ground-truth point. Each error is a prediction minus the point's
  second timestamp, where for the anchor \<open>a\<close> (the point's first timestamp) the prediction
  is the second coordinate of the first path point when \<open>a\<close> lies before it, that of the
  last path point when \<open>a\<close> lies after it, and the value at \<open>a\<close> of the line through path
  points \<open>j\<close> and \<open>j + 1\<close> whenever these bracket \<open>a\<close>. For the path \<open>(0, 0), (2, 2)\<close> and the
  anchor 5 the prediction is 2.
\<close>

theorem align_errors_interpolate_and_clamp:
  assumes g: "getGroundTruthTimestamps annotfile1 annotfile2 allEvalMeasures = Inr (gt, measNums)"
    and gne: "gt \<noteq> []"
    and h: "hyp = frames_to_sec hypfile frames"
    and hne: "hyp \<noteq> []"
    and srt: "sorted_wrt (<) (map fst hyp)"
  shows "\<exists>err. calcAlignErrors_single hypfile annotfile1 annotfile2 allEvalMeasures frames
                 = Inr (err, measNums)
           \<and> length err = length gt
           \<and> (\<forall>i < length gt. \<exists>pred. err ! i = pred - snd (gt ! i)
                 \<and> (fst (gt ! i) < fst (hd hyp) \<longrightarrow> pred = snd (hd hyp))
                 \<and> (fst (last hyp) < fst (gt ! i) \<longrightarrow> pred = snd (last hyp))
                 \<and> (\<forall>j. j + 1 < length hyp \<and> fst (hyp ! j) \<le> fst (gt ! i)
                            \<and> fst (gt ! i) \<le> fst (hyp ! (j + 1)) \<longrightarrow>
                        pred = snd (hyp ! j)
                               + (fst (gt ! i) - fst (hyp ! j)) * (snd (hyp ! (j + 1)) - snd (hyp ! j))
                                   / (fst (hyp ! (j + 1)) - fst (hyp ! j))))"
proof -
  define pred where "pred = map (\<lambda>x. interp_at x (map fst hyp) (map snd hyp)) (map fst gt)"
  define err where "err = map (\<lambda>(p, g). p - snd g) (zip pred gt)"
  have np: "np_interp (map fst gt) (map fst hyp) (map snd hyp) = Inr pred"
    using hne by (simp add: np_interp_def pred_def)
  have res: "calcAlignErrors_single hypfile annotfile1 annotfile2 allEvalMeasures frames
               = Inr (err, measNums)"
    using g gne np by (simp add: calcAlignErrors_single_def h [symmetric] err_def)
  have len: "length err = length gt"
    by (simp add: err_def pred_def)
  have "\<exists>p. err ! i = p - snd (gt ! i)
                 \<and> (fst (gt ! i) < fst (hd hyp) \<longrightarrow> p = snd (hd hyp))
                 \<and> (fst (last hyp) < fst (gt ! i) \<longrightarrow> p = snd (last hyp))
                 \<and> (\<forall>j. j + 1 < length hyp \<and> fst (hyp ! j) \<le> fst (gt ! i)
                            \<and> fst (gt ! i) \<le> fst (hyp ! (j + 1)) \<longrightarrow>
                        p = snd (hyp ! j)
                               + (fst (gt ! i) - fst (hyp ! j)) * (snd (hyp ! (j + 1)) - snd (hyp ! j))
                                   / (fst (hyp ! (j + 1)) - fst (hyp ! j)))"
    if "i < length gt" for i
  proof -
    have "err ! i = interp_at (fst (gt ! i)) (map fst hyp) (map snd hyp) - snd (gt ! i)"
      using that by (simp add: err_def pred_def)
    with interp_at_path [OF srt hne, of "fst (gt ! i)"] show ?thesis by blast
  qed
  with res len show ?thesis by blast
qed

theorem align_errors_interpolate_and_clamp_witness:
  "getGroundTruthTimestamps [(5, 1)] [(3, 1)] {1} = Inr ([(5, 3)], [1])
   \<and> ([(5, 3)] :: (real \<times> real) list) \<noteq> []
   \<and> ([(0, 0), (2, 2)] :: path) = frames_to_sec [(0, 0), (2, 2)] False
   \<and> ([(0, 0), (2, 2)] :: path) \<noteq> []
   \<and> sorted_wrt (<) (map fst ([(0, 0), (2, 2)] :: path))
   \<and> fst (last ([(0, 0), (2, 2)] :: path)) < fst (([(5, 3)] :: (real \<times> real) list) ! 0)
   \<and> calcAlignErrors_single [(0, 0), (2, 2)] [(5, 1)] [(3, 1)] {1} False = Inr ([2 - 3], [1])"
proof -
  have g: "getGroundTruthTimestamps [(5, 1)] [(3, 1)] {1} = Inr ([(5, 3)], [1])"
    by (simp add: getGroundTruthTimestamps_def parseAnnotationFile_def)
  have h: "([(0, 0), (2, 2)] :: path) = frames_to_sec [(0, 0), (2, 2)] False"
    by (simp add: frames_to_sec_def)
  have "\<exists>err. calcAlignErrors_single [(0, 0), (2, 2)] [(5, 1)] [(3, 1)] {1} False = Inr (err, [1])
           \<and> length err = 1 \<and> err ! 0 = 2 - 3"
    using align_errors_interpolate_and_clamp [OF g _ h] by fastforce
  then obtain err where
    r: "calcAlignErrors_single [(0, 0), (2, 2)] [(5, 1)] [(3, 1)] {1} False = Inr (err, [1])"
    and l: "length err = 1" and e: "err ! 0 = 2 - 3"
    by blast
  from l e have "err = [2 - 3]" by (cases err) auto
  with r g h show ?thesis by simp
qed

section \<open>Properties of the channel reweighting\<close>

lemma foldl_fadd_fin: "foldl fadd (Fin a) (map Fin rs) = Fin (a + sum_list rs)"
  by (induction rs arbitrary: a) (simp_all add: add.assoc)

lemma np_mean_fin:
  "rs \<noteq> [] \<Longrightarrow> np_mean (map Fin rs) = Fin (sum_list rs / real (length rs))"
  by (simp add: np_mean_def foldl_fadd_fin)

lemma mean_square_fin:
  "rs \<noteq> [] \<Longrightarrow> mean_square (map Fin rs) = Fin (sum_list (map (\<lambda>a. a * a) rs) / real (length rs))"
  using np_mean_fin [of "map (\<lambda>a. a * a) rs"] by (simp add: mean_square_def comp_def)

lemma mean_square_Nil: "mean_square [] = NaN"
  by (simp add: mean_square_def np_mean_def)

lemma fin_signal_ex:
  "\<forall>v \<in> set ch. is_fin v \<Longrightarrow> \<exists>rs. ch = map Fin rs"
proof (induction ch)
  case Nil
  then show ?case by simp
next
  case (Cons v ch)
  then obtain rs where "ch = map Fin rs" by auto
  moreover from Cons.prems obtain a where "v = Fin a" by (cases v) auto
  ultimately have "v # ch = map Fin (a # rs)" by simp
  then show ?case ..
qed

lemma sum_squares_nonneg: "0 \<le> sum_list (map (\<lambda>a. a * a) (rs :: real list))"
  by (induction rs) simp_all

lemma sum_squares_scaled:
  "sum_list (map (\<lambda>a. (a * c) * (a * c)) (rs :: real list)) = c * c * sum_list (map (\<lambda>a. a * a) rs)"
  by (induction rs) (simp_all add: algebra_simps)

lemma fin_stereo_columns:
  assumes "\<forall>s \<in> set x. is_fin (fst s) \<and> is_fin (snd s)"
  obtains ls rs where "map fst x = map Fin ls" and "map snd x = map Fin rs"
    and "length ls = length x" and "length rs = length x"
proof -
  from assms have "\<forall>v \<in> set (map fst x). is_fin v" "\<forall>v \<in> set (map snd x). is_fin v"
    by auto
  then obtain ls rs where c: "map fst x = map Fin ls" "map snd x = map Fin rs"
    using fin_signal_ex by blast
  then have "length ls = length x" "length rs = length x"
    by (metis length_map)+
  with c show ?thesis by (rule that)
qed

lemma reweighting_fin:
  assumes fin: "\<forall>s \<in> set x. is_fin (fst s) \<and> is_fin (snd s)"
    and r: "mean_square (map snd x) = Fin r" and nz: "r \<noteq> 0"
  shows "\<exists>l. mean_square (map fst x) = Fin l \<and> 0 \<le> l \<and> 0 < r
           \<and> channel_volume_reweighting x = map (\<lambda>s. (fst s, fmul (snd s) (Fin (sqrt (l / r))))) x
           \<and> mean_square (map fst (channel_volume_reweighting x)) = Fin l
           \<and> mean_square (map snd (channel_volume_reweighting x)) = Fin l
           \<and> (\<forall>s \<in> set (channel_volume_reweighting x). is_fin (snd s))"
proof -
  from fin obtain ls rs where ls: "map fst x = map Fin ls" and rs: "map snd x = map Fin rs"
    and len: "length ls = length x" "length rs = length x"
    by (rule fin_stereo_columns)
  have ne: "x \<noteq> []"
    using r by (auto simp: mean_square_Nil)
  with len have lne: "ls \<noteq> []" and rne: "rs \<noteq> []" by auto
  define n where "n = real (length x)"
  have npos: "0 < n" using ne by (simp add: n_def)
  define l where "l = sum_list (map (\<lambda>a. a * a) ls) / n"
  have ml: "mean_square (map fst x) = Fin l"
    using mean_square_fin [OF lne] by (simp add: ls l_def n_def len)
  have mr: "r = sum_list (map (\<lambda>a. a * a) rs) / n"
    using mean_square_fin [OF rne] r by (simp add: rs n_def len)
  have l0: "0 \<le> l"
    using npos sum_squares_nonneg [of ls] by (simp add: l_def)
  have "0 \<le> r"
    using npos sum_squares_nonneg [of rs] by (simp add: mr)
  with nz have rpos: "0 < r" by simp
  define c where "c = sqrt (l / r)"
  have cc: "c * c = l / r"
    using l0 rpos by (simp add: c_def)
  have q0: "0 \<le> l / r"
    using l0 rpos by simp
  have g: "fsqrt (fdiv (Fin l) (Fin r)) = Fin c"
    using q0 rpos by (simp add: c_def not_less)
  have out: "channel_volume_reweighting x = map (\<lambda>s. (fst s, fmul (snd s) (Fin c))) x"
    by (simp only: channel_volume_reweighting_def ml r g Let_def)
  have ofst: "map fst (channel_volume_reweighting x) = map Fin ls"
    by (simp add: out comp_def ls [symmetric])
  have "map snd (channel_volume_reweighting x) = map (\<lambda>v. fmul v (Fin c)) (map snd x)"
    by (simp add: out comp_def)
  also have "\<dots> = map Fin (map (\<lambda>a. a * c) rs)"
    by (simp add: rs comp_def)
  finally have osnd: "map snd (channel_volume_reweighting x) = map Fin (map (\<lambda>a. a * c) rs)" .
  have m1: "mean_square (map fst (channel_volume_reweighting x)) = Fin l"
    using ml by (simp add: ofst ls)
  have "mean_square (map snd (channel_volume_reweighting x))
          = Fin (sum_list (map (\<lambda>a. (a * c) * (a * c)) rs) / n)"
    using mean_square_fin [of "map (\<lambda>a. a * c) rs"] rne
    by (simp add: osnd comp_def n_def len)
  also have "\<dots> = Fin (c * c * r)"
    by (simp add: sum_squares_scaled mr)
  also have "\<dots> = Fin l"
    using rpos by (simp add: cc)
  finally have m2: "mean_square (map snd (channel_volume_reweighting x)) = Fin l" .
  have "\<forall>v \<in> set (map snd (channel_volume_reweighting x)). is_fin v"
    unfolding osnd by simp
  then have f: "\<forall>s \<in> set (channel_volume_reweighting x). is_fin (snd s)"
    by simp
  show ?thesis
    using ml l0 rpos out m1 m2 f unfolding c_def by blast
qed

lemma nonneg_or_nan_square: "nonneg_or_nan (fmul v v)"
  by (cases v) simp_all

lemma nonneg_or_nan_fadd:
  "nonneg_or_nan a \<Longrightarrow> nonneg_or_nan b \<Longrightarrow> nonneg_or_nan (fadd a b)"
  by (cases a; cases b) simp_all

lemma nonneg_or_nan_foldl:
  "nonneg_or_nan a \<Longrightarrow> \<forall>v \<in> set vs. nonneg_or_nan v \<Longrightarrow> nonneg_or_nan (foldl fadd a vs)"
  by (induction vs arbitrary: a) (simp_all add: nonneg_or_nan_fadd)

lemma nonneg_or_nan_fdiv:
  "nonneg_or_nan a \<Longrightarrow> 0 \<le> c \<Longrightarrow> nonneg_or_nan (fdiv a (Fin c))"
  by (cases a) auto

lemma nonneg_or_nan_mean_square: "nonneg_or_nan (mean_square ch)"
  unfolding mean_square_def np_mean_def
  by (intro nonneg_or_nan_fdiv nonneg_or_nan_foldl) (simp_all add: nonneg_or_nan_square)

lemma zero_times_gain_by_zero:
  "nonneg_or_nan m \<Longrightarrow> fmul (Fin 0) (fsqrt (fdiv m (Fin 0))) = NaN"
  by (cases m) auto

lemma mean_square_zeros:
  assumes "ch \<noteq> []" and "\<forall>v \<in> set ch. v = Fin 0"
  shows "mean_square ch = Fin 0"
proof -
  from assms(2) have "ch = map Fin (replicate (length ch) 0)"
    by (induction ch) simp_all
  moreover have "mean_square (map Fin (replicate (length ch) 0)) = Fin 0"
    using assms(1) mean_square_fin [of "replicate (length ch) 0"]
    by (simp add: sum_list_replicate)
  ultimately show ?thesis by simp
qed

lemma reweighting_zero_right:
  assumes ne: "x \<noteq> []" and z: "\<forall>s \<in> set x. snd s = Fin 0"
  shows "mean_square (map snd x) = Fin 0"
    and "map snd (channel_volume_reweighting x) = replicate (length x) NaN"
proof -
  show m: "mean_square (map snd x) = Fin 0"
    using ne z by (intro mean_square_zeros) auto
  have g: "fmul (Fin 0) (fsqrt (fdiv (mean_square (map fst x)) (Fin 0))) = NaN"
    by (rule zero_times_gain_by_zero) (rule nonneg_or_nan_mean_square)
  have "map snd (channel_volume_reweighting x)
          = map (\<lambda>s. fmul (snd s) (fsqrt (fdiv (mean_square (map fst x)) (Fin 0)))) x"
    by (simp only: channel_volume_reweighting_def Let_def m map_map comp_def snd_conv)
  also have "\<dots> = map (\<lambda>s. NaN) x"
    using z g by (intro map_cong) simp_all
  also have "\<dots> = replicate (length x) NaN"
    by (simp add: map_replicate_const)
  finally show "map snd (channel_volume_reweighting x) = replicate (length x) NaN" .
qed

lemma sum_squares_zero:
  "sum_list (map (\<lambda>a. a * a) (rs :: real list)) = 0 \<Longrightarrow> \<forall>a \<in> set rs. a = 0"
proof (induction rs)
  case Nil
  then show ?case by simp
next
  case (Cons a rs)
  have "0 \<le> a * a" by simp
  moreover have "0 \<le> sum_list (map (\<lambda>a. a * a) rs)" by (rule sum_squares_nonneg)
  ultimately have "a * a = 0" "sum_list (map (\<lambda>a. a * a) rs) = 0"
    using Cons.prems by (simp_all add: add_nonneg_eq_0_iff)
  with Cons.IH show ?case by simp
qed

lemma fin_zero_energy:
  assumes fin: "\<forall>v \<in> set ch. is_fin v" and ne: "ch \<noteq> []" and z: "mean_square ch = Fin 0"
  shows "\<forall>v \<in> set ch. v = Fin 0"
proof -
  from fin obtain rs where c: "ch = map Fin rs" using fin_signal_ex by blast
  with ne have rne: "rs \<noteq> []" by auto
  from z have "sum_list (map (\<lambda>a. a * a) rs) / real (length rs) = 0"
    using mean_square_fin [OF rne] by (simp add: c)
  with rne have "sum_list (map (\<lambda>a. a * a) rs) = 0" by simp
  then have "\<forall>a \<in> set rs. a = 0" by (rule sum_squares_zero)
  then show ?thesis by (simp add: c)
qed

text \<open>
  Claim C8. Let every sample of the stereo buffer be finite and let the mean square of
  the second channel be a number \<open>mse_right\<close> other than 0. Then the mean square of the
  first channel is a number \<open>mse_left\<close>, \<open>channel_volume_reweighting\<close> leaves the first
  channel as it is and multiplies every sample of the second by
  \<open>sqrt (mse_left / mse_right)\<close>, and in the result both channels have the mean square
  \<open>mse_left\<close>. Finite values are exact real numbers here.
\<close>

theorem reweighting_equalizes_mean_squares:
  assumes "\<forall>s \<in> set x_stereo. is_fin (fst s) \<and> is_fin (snd s)"
    and "mean_square (map snd x_stereo) = Fin mse_right"
    and "mse_right \<noteq> 0"
  shows "\<exists>mse_left. mean_square (map fst x_stereo) = Fin mse_left
           \<and> channel_volume_reweighting x_stereo
               = map (\<lambda>s. (fst s, fmul (snd s) (Fin (sqrt (mse_left / mse_right))))) x_stereo
           \<and> mean_square (map fst (channel_volume_reweighting x_stereo)) = Fin mse_left
           \<and> mean_square (map snd (channel_volume_reweighting x_stereo)) = Fin mse_left"
  using reweighting_fin [OF assms] by blast

theorem reweighting_equalizes_mean_squares_witness:
  "is_fin (Fin 2) \<and> is_fin (Fin 1) \<and> is_fin (Fin (- 1))
   \<and> mean_square (map snd [(Fin 2, Fin 1), (Fin 2, Fin (- 1))]) = Fin 1
   \<and> (1 :: real) \<noteq> 0
   \<and> mean_square (map fst [(Fin 2, Fin 1), (Fin 2, Fin (- 1))]) = Fin 4
   \<and> channel_volume_reweighting [(Fin 2, Fin 1), (Fin 2, Fin (- 1))]
       = [(Fin 2, Fin 2), (Fin 2, Fin (- 2))]
   \<and> mean_square (map fst (channel_volume_reweighting [(Fin 2, Fin 1), (Fin 2, Fin (- 1))])) = Fin 4
   \<and> mean_square (map snd (channel_volume_reweighting [(Fin 2, Fin 1), (Fin 2, Fin (- 1))])) = Fin 4"
proof -
  have r: "mean_square (map snd [(Fin 2, Fin 1), (Fin 2, Fin (- 1))]) = Fin 1"
    by (simp add: mean_square_def np_mean_def)
  have l: "mean_square (map fst [(Fin 2, Fin 1), (Fin 2, Fin (- 1))]) = Fin 4"
    by (simp add: mean_square_def np_mean_def)
  from reweighting_equalizes_mean_squares [OF _ r] l r
  show ?thesis by (simp add: mean_square_def np_mean_def)
qed

text \<open>
  Claim C10. The division in \<open>channel_volume_reweighting\<close> has no guard. On a non-empty
  buffer whose second channel is zero throughout, the divisor (the mean square of the
  second channel) is 0 and every sample of the second channel of the result is NaN. On a
  non-empty buffer of finite samples the second channel of the result is finite exactly
  when the mean square of the second channel is not 0.
\<close>

theorem reweighting_unguarded_division:
  assumes "x_stereo \<noteq> []"
  shows "((\<forall>s \<in> set x_stereo. snd s = Fin 0) \<longrightarrow>
            mean_square (map snd x_stereo) = Fin 0
          \<and> map snd (channel_volume_reweighting x_stereo) = replicate (length x_stereo) NaN)
       \<and> ((\<forall>s \<in> set x_stereo. is_fin (fst s) \<and> is_fin (snd s)) \<longrightarrow>
            ((\<forall>s \<in> set (channel_volume_reweighting x_stereo). is_fin (snd s))
               \<longleftrightarrow> mean_square (map snd x_stereo) \<noteq> Fin 0))"
proof (intro conjI impI)
  assume z: "\<forall>s \<in> set x_stereo. snd s = Fin 0"
  show "mean_square (map snd x_stereo) = Fin 0"
    using assms z by (rule reweighting_zero_right(1))
  show "map snd (channel_volume_reweighting x_stereo) = replicate (length x_stereo) NaN"
    using assms z by (rule reweighting_zero_right(2))
next
  assume fin: "\<forall>s \<in> set x_stereo. is_fin (fst s) \<and> is_fin (snd s)"
  show "(\<forall>s \<in> set (channel_volume_reweighting x_stereo). is_fin (snd s))
               \<longleftrightarrow> mean_square (map snd x_stereo) \<noteq> Fin 0"
  proof
    assume f: "\<forall>s \<in> set (channel_volume_reweighting x_stereo). is_fin (snd s)"
    show "mean_square (map snd x_stereo) \<noteq> Fin 0"
    proof
      assume m: "mean_square (map snd x_stereo) = Fin 0"
      have "\<forall>v \<in> set (map snd x_stereo). v = Fin 0"
        using fin assms m by (intro fin_zero_energy) auto
      then have "\<forall>s \<in> set x_stereo. snd s = Fin 0" by simp
      then have "map snd (channel_volume_reweighting x_stereo) = replicate (length x_stereo) NaN"
        using assms by (intro reweighting_zero_right(2))
      moreover from f have "\<forall>v \<in> set (map snd (channel_volume_reweighting x_stereo)). is_fin v"
        by simp
      ultimately show False using assms by simp
    qed
  next
    assume nz: "mean_square (map snd x_stereo) \<noteq> Fin 0"
    from fin have "\<forall>v \<in> set (map snd x_stereo). is_fin v" by simp
    then obtain rs where rs: "map snd x_stereo = map Fin rs"
      using fin_signal_ex by blast
    with assms have "rs \<noteq> []" by auto
    from mean_square_fin [OF this] obtain r where r: "mean_square (map snd x_stereo) = Fin r"
      unfolding rs by blast
    with nz have "r \<noteq> 0" by simp
    with reweighting_fin [OF fin r] show "\<forall>s \<in> set (channel_volume_reweighting x_stereo). is_fin (snd s)"
      by blast
  qed
qed

theorem reweighting_unguarded_division_witness:
  "[(Fin 1, Fin 0), (Fin 2, Fin 0)] \<noteq> []
   \<and> snd (Fin 1, Fin 0) = Fin 0 \<and> snd (Fin 2, Fin 0) = Fin 0
   \<and> mean_square (map snd [(Fin 1, Fin 0), (Fin 2, Fin 0)]) = Fin 0
   \<and> map snd (channel_volume_reweighting [(Fin 1, Fin 0), (Fin 2, Fin 0)]) = [NaN, NaN]
   \<and> \<not> is_fin NaN
   \<and> [(Fin 2, Fin 1), (Fin 2, Fin (- 1))] \<noteq> []
   \<and> is_fin (Fin 2) \<and> is_fin (Fin 1) \<and> is_fin (Fin (- 1))
   \<and> mean_square (map snd [(Fin 2, Fin 1), (Fin 2, Fin (- 1))]) \<noteq> Fin 0
   \<and> is_fin (snd (channel_volume_reweighting [(Fin 2, Fin 1), (Fin 2, Fin (- 1))] ! 0))
   \<and> is_fin (snd (channel_volume_reweighting [(Fin 2, Fin 1), (Fin 2, Fin (- 1))] ! 1))"
proof -
  have zero: "mean_square (map snd [(Fin 1, Fin 0), (Fin 2, Fin 0)]) = Fin 0
      \<and> map snd (channel_volume_reweighting [(Fin 1, Fin 0), (Fin 2, Fin 0)]) = [NaN, NaN]"
    using reweighting_unguarded_division [of "[(Fin 1, Fin 0), (Fin 2, Fin 0)]"]
    by (simp add: numeral_2_eq_2)
  have r: "mean_square (map snd [(Fin 2, Fin 1), (Fin 2, Fin (- 1))]) = Fin 1"
    by (simp add: mean_square_def np_mean_def)
  have v: "channel_volume_reweighting [(Fin 2, Fin 1), (Fin 2, Fin (- 1))]
             = [(Fin 2, Fin 2), (Fin 2, Fin (- 2))]"
    by (simp add: channel_volume_reweighting_def mean_square_def np_mean_def)
  have "\<forall>s \<in> set (channel_volume_reweighting [(Fin 2, Fin 1), (Fin 2, Fin (- 1))]). is_fin (snd s)"
    using reweighting_unguarded_division [of "[(Fin 2, Fin 1), (Fin 2, Fin (- 1))]"] r
    by simp
  then have
    "is_fin (snd (channel_volume_reweighting [(Fin 2, Fin 1), (Fin 2, Fin (- 1))] ! 0))
     \<and> is_fin (snd (channel_volume_reweighting [(Fin 2, Fin 1), (Fin 2, Fin (- 1))] ! 1))"
    by (simp add: v)
  with zero r show ?thesis by simp
qed

end
